theory Spec2Isabelle
  imports Main "HOL-Library.Word" "HOL-Library.AList"
begin

section \<open>The inode tree of the FileSystemConnector (fuse/fsconnector.go)\<close>

text \<open>
  The connector is a pointer structure: inodes point to their children, to the mount they
  belong to and to the mount grafted on them; mounts point back to their root inode. The
  model is an explicit store. An address is a natural number, the store maps every address
  to an object, and \<open>new\<close> hands out the next unused address. A pointer that may be
  \<open>nil\<close> is an \<open>option\<close>.

  Locks are not part of the model: every operation is taken to run alone, from its
  \<open>Lock\<close> to its deferred \<open>Unlock\<close>. The variable \<open>paranoia\<close> has the value the file
  gives it (\<open>false\<close>), so \<open>verify\<close> returns at once and is left out.
\<close>

subsection \<open>Data\<close>

type_synonym addr = nat
type_synonym maddr = nat

text \<open>
  A Go map is an association list that is read through \<^const>\<open>map_of\<close>: the first entry of
  a key is its value, and \<open>range\<close> visits every key once (\<^const>\<open>AList.clearjunk\<close>), in an
  order that Go leaves open and the list fixes. \<open>None\<close> is the \<open>nil\<close> map of an inode that
  is not a directory: it reads as empty and cannot be written.

  \<open>lookupCount\<close> is a Go \<open>int\<close>, a signed machine integer whose width depends on the
  platform: the record leaves the type of the field open and every operation takes it at
  \<open>'w word\<close>. Node identifiers are only ever compared, never computed with; they are natural
  numbers here.
\<close>

record 'c inode =
  nodeId :: nat
  children :: "(string \<times> addr) list option"
  mounts :: "(string \<times> maddr) list option"
  lookupCount :: 'c
  mountPoint :: "maddr option"
  mount :: "maddr option"
  openFiles :: "nat list"

record fileSystemMount =
  mountInode :: "addr option"
  fs :: nat
  options :: "nat option"
  mountOpenFiles :: nat

text \<open>
  Modelled from the spec: the status codes (the type Status is declared outside the source
  at hand). OK, ENOENT ("not found"), EBUSY ("busy") and EINVAL ("invalid") are the codes
  this file returns; EEXIST is the code for "already exists", which it never returns.
\<close>

datatype Status = OK | ENOENT | EBUSY | EINVAL | EEXIST

text \<open>What the connector sends out: notifications to the kernel and the hooks of a backend.\<close>

datatype event =
  EvEntryNotify nat string
  | EvInodeNotify nat int int
  | EvFsMount nat
  | EvFsUnmount nat

record 'c connector =
  inodes :: "addr \<Rightarrow> 'c inode"
  nextInode :: addr
  fsMounts :: "maddr \<Rightarrow> fileSystemMount"
  nextMount :: maddr
  inodeMap :: "(nat \<times> addr) list"
  rootNode :: addr
  sent :: "event list"

text \<open>
  A panic ends the operation; the result carries the store as it was at that moment.
  \<open>OutOfFuel\<close> stands for a recursion that does not come back.
\<close>

datatype error = OutOfFuel | NilDereference | NilMapWrite | BadHandle | Panic string

definition FUSE_ROOT_ID :: nat where
  "FUSE_ROOT_ID = 1"

definition zeroInode :: "'w::len word inode" where
  "zeroInode = \<lparr>nodeId = 0, children = None, mounts = None, lookupCount = 0,
     mountPoint = None, mount = None, openFiles = []\<rparr>"

definition updInode :: "'w word connector \<Rightarrow> addr \<Rightarrow> ('w word inode \<Rightarrow> 'w word inode) \<Rightarrow> 'w word connector" where
  "updInode s a f = s\<lparr>inodes := (inodes s)(a := f (inodes s a))\<rparr>"

definition updMount ::
  "'w word connector \<Rightarrow> maddr \<Rightarrow> (fileSystemMount \<Rightarrow> fileSystemMount) \<Rightarrow> 'w word connector" where
  "updMount s m f = s\<lparr>fsMounts := (fsMounts s)(m := f (fsMounts s m))\<rparr>"

definition emit :: "'w word connector \<Rightarrow> event \<Rightarrow> 'w word connector" where
  "emit s e = s\<lparr>sent := sent s @ [e]\<rparr>"

text \<open>Reading a Go map: \<open>m[k]\<close>, \<open>range m\<close> and \<open>len(m)\<close>.\<close>

definition mapGet :: "('k \<times> 'v) list option \<Rightarrow> 'k \<Rightarrow> 'v option" where
  "mapGet m k = (case m of None \<Rightarrow> None | Some al \<Rightarrow> map_of al k)"

definition mapRange :: "('k \<times> 'v) list option \<Rightarrow> ('k \<times> 'v) list" where
  "mapRange m = (case m of None \<Rightarrow> [] | Some al \<Rightarrow> AList.clearjunk al)"

definition mapLen :: "('k \<times> 'v) list option \<Rightarrow> nat" where
  "mapLen m = length (mapRange m)"

definition mapDelete :: "('k \<times> 'v) list option \<Rightarrow> 'k \<Rightarrow> ('k \<times> 'v) list option" where
  "mapDelete m k = map_option (AList.delete k) m"

subsection \<open>HandleMap\<close>

text \<open>
  Modelled from the spec: the HandleMap (handle.go is not part of the source at hand).
  \<open>Register\<close> hands out a handle that no registered object has and that is not the reserved
  identifier of the root, \<open>Decode\<close> resolves a handle and fails on one that is stale or
  unknown, \<open>Forget\<close> gives the handle up.
\<close>

definition Register :: "(nat \<times> addr) list \<Rightarrow> addr \<Rightarrow> nat \<times> (nat \<times> addr) list" where
  "Register hm a = (let h = Suc (fold max (map fst hm) FUSE_ROOT_ID) in (h, (h, a) # hm))"

definition DecodeHandle :: "(nat \<times> addr) list \<Rightarrow> nat \<Rightarrow> addr option" where
  "DecodeHandle hm h = map_of hm h"

definition Forget :: "(nat \<times> addr) list \<Rightarrow> nat \<Rightarrow> (nat \<times> addr) list" where
  "Forget hm h = AList.delete h hm"

subsection \<open>Methods of Inode\<close>

text \<open>
  Modelled from the spec: \<open>addChild\<close>, \<open>rmChild\<close> and \<open>mountFs\<close> (inode.go is not part of the
  source at hand). \<open>addChild\<close> inserts the child under the name, \<open>rmChild\<close> detaches the
  child of that name and returns it, or \<open>nil\<close> when there is none, \<open>mountFs\<close> binds the inode
  to a new mount that wraps the backend and the options. Writing to the \<open>nil\<close> map of an
  inode that is not a directory is Go's panic.
\<close>

definition addChild ::
  "'w word connector \<Rightarrow> addr \<Rightarrow> string \<Rightarrow> addr \<Rightarrow> (error \<times> 'w word connector) + 'w word connector" where
  "addChild s n name child =
     (case children (inodes s n) of
        None \<Rightarrow> Inl (NilMapWrite, s)
      | Some al \<Rightarrow> Inr (updInode s n (\<lambda>i. i\<lparr>children := Some (AList.update name child al)\<rparr>)))"

definition rmChild :: "'w word connector \<Rightarrow> addr \<Rightarrow> string \<Rightarrow> 'w word connector \<times> addr option" where
  "rmChild s n name =
     (case mapGet (children (inodes s n)) name of
        None \<Rightarrow> (s, None)
      | Some ch \<Rightarrow>
          (updInode s n (\<lambda>i. i\<lparr>children := mapDelete (children i) name\<rparr>), Some ch))"

definition mountFs :: "'w word connector \<Rightarrow> addr \<Rightarrow> nat \<Rightarrow> nat option \<Rightarrow> 'w word connector" where
  "mountFs s n nodeFs opts =
     (let m = nextMount s;
          s1 = s\<lparr>fsMounts := (fsMounts s)(m :=
                  \<lparr>mountInode = Some n, fs = nodeFs, options = opts, mountOpenFiles = 0\<rparr>),
                nextMount := Suc m\<rparr>
      in updInode s1 n (\<lambda>i. i\<lparr>mountPoint := Some m, mount := Some m\<rparr>))"

subsection \<open>Lookup and forget\<close>

definition newInode :: "'w::len word connector \<Rightarrow> bool \<Rightarrow> 'w word connector \<times> addr" where
  "newInode s isDir =
     (let data = nextInode s;
          (h, hm) = Register (inodeMap s) data
      in (s\<lparr>inodes := (inodes s)(data :=
               zeroInode\<lparr>nodeId := h, children := (if isDir then Some [] else None)\<rparr>),
            nextInode := Suc data, inodeMap := hm\<rparr>, data))"



definition getInodeData :: "'w word connector \<Rightarrow> nat \<Rightarrow> addr option" where
  "getInodeData s nodeid =
     (if nodeid = FUSE_ROOT_ID then Some (rootNode s) else DecodeHandle (inodeMap s) nodeid)"

text \<open>The second loop of \<open>considerDropInode\<close>: detach the collected names, release the handles.\<close>

fun dropChildren ::
  "'w word connector \<Rightarrow> addr \<Rightarrow> string list \<Rightarrow> (error \<times> 'w word connector) + 'w word connector" where
  "dropChildren s n [] = Inr s"
| "dropChildren s n (k # ks) =
     (case rmChild s n k of
        (s1, None) \<Rightarrow> Inl (Panic ''trying to del child, but not present'', s1)
      | (s1, Some ch) \<Rightarrow>
          dropChildren (s1\<lparr>inodeMap := Forget (inodeMap s1) (nodeId (inodes s1 ch))\<rparr>) n ks)"

text \<open>
  The garbage collector. It recurses along child pointers, which end only if the store
  holds a tree, so the recursion carries fuel: one unit per level.
  \<open>scanChildren\<close> is the first loop, over the entries that \<open>range n.children\<close> yields.
\<close>

fun considerDropInode ::
    "nat \<Rightarrow> 'w::len word connector \<Rightarrow> addr \<Rightarrow> (error \<times> 'w word connector) + ('w word connector \<times> bool)"
  and scanChildren ::
    "nat \<Rightarrow> 'w::len word connector \<Rightarrow> (string \<times> addr) list \<Rightarrow> string list
       \<Rightarrow> (error \<times> 'w word connector) + ('w word connector \<times> string list)" where
  "considerDropInode 0 s n = Inl (OutOfFuel, s)"
| "considerDropInode (Suc fuel) s n =
     (case scanChildren fuel s (mapRange (children (inodes s n))) [] of
        Inl e \<Rightarrow> Inl e
      | Inr (s1, delChildren) \<Rightarrow>
          (case dropChildren s1 n delChildren of
             Inl e \<Rightarrow> Inl e
           | Inr s2 \<Rightarrow>
               (if 0 < mapLen (children (inodes s2 n)) \<or> 0 <s lookupCount (inodes s2 n)
                then Inr (s2, False)
                else if n = rootNode s2 \<or> mountPoint (inodes s2 n) \<noteq> None
                then Inr (s2, False)
                else Inr (s2, length (openFiles (inodes s2 n)) = 0))))"
| "scanChildren fuel s [] delChildren = Inr (s, delChildren)"
| "scanChildren fuel s ((k, v) # kvs) delChildren =
     (if mountPoint (inodes s v) = None
      then (case considerDropInode fuel s v of
              Inl e \<Rightarrow> Inl e
            | Inr (s1, dropIt) \<Rightarrow>
                scanChildren fuel s1 kvs (if dropIt then delChildren @ [k] else delChildren))
      else scanChildren fuel s kvs delChildren)"

definition forgetUpdate ::
  "nat \<Rightarrow> 'w::len word connector \<Rightarrow> nat \<Rightarrow> 'w word \<Rightarrow> (error \<times> 'w word connector) + 'w word connector" where
  "forgetUpdate fuel s nodeid forgetCount =
     (case getInodeData s nodeid of
        None \<Rightarrow> Inl (BadHandle, s)
      | Some node \<Rightarrow>
          (let s1 = updInode s node (\<lambda>i. i\<lparr>lookupCount := lookupCount i - forgetCount\<rparr>) in
           case considerDropInode fuel s1 node of
             Inl e \<Rightarrow> Inl e
           | Inr (s2, dropIt) \<Rightarrow> Inr s2))"

subsection \<open>Rename and unlink\<close>

definition renameUpdate ::
  "'w word connector \<Rightarrow> addr \<Rightarrow> string \<Rightarrow> addr \<Rightarrow> string
     \<Rightarrow> (error \<times> 'w word connector) + 'w word connector" where
  "renameUpdate s oldParent oldName newParent newName =
     (if mount (inodes s oldParent) \<noteq> mount (inodes s newParent)
      then Inl (Panic ''Cross mount rename'', s)
      else (case rmChild s oldParent oldName of
              (s1, None) \<Rightarrow> Inl (Panic ''Source of rename does not exist'', s1)
            | (s1, Some node) \<Rightarrow> addChild (fst (rmChild s1 newParent newName)) newParent newName node))"

definition unlinkUpdate :: "'w word connector \<Rightarrow> addr \<Rightarrow> string \<Rightarrow> 'w word connector" where
  "unlinkUpdate s parent name = fst (rmChild s parent name)"

subsection \<open>Paths\<close>

text \<open>
  The functions of Go's library that the connector calls on paths, with \<open>/\<close> as the
  separator: \<open>strings.Split(s, "/")\<close>, \<open>strings.TrimLeft(s, "/")\<close>, \<open>filepath.Split\<close> and
  \<open>filepath.Clean\<close>. \<open>Clean\<close> drops empty and \<open>.\<close> elements, lets \<open>..\<close> take back the
  element before it, drops a \<open>..\<close> that would climb above the root of a rooted path, keeps
  it at the front of a path that is not rooted, and returns \<open>.\<close> for an empty result.
\<close>

fun strings_Split :: "string \<Rightarrow> string list" where
  "strings_Split [] = [[]]"
| "strings_Split (c # cs) =
     (if c = CHR ''/'' then [] # strings_Split cs
      else (case strings_Split cs of [] \<Rightarrow> [[c]] | w # ws \<Rightarrow> (c # w) # ws))"

definition strings_TrimLeft :: "string \<Rightarrow> string" where
  "strings_TrimLeft s = dropWhile (\<lambda>c. c = CHR ''/'') s"

definition filepath_Split :: "string \<Rightarrow> string \<times> string" where
  "filepath_Split path =
     (let file = rev (takeWhile (\<lambda>c. c \<noteq> CHR ''/'') (rev path))
      in (take (length path - length file) path, file))"

fun joinSlash :: "string list \<Rightarrow> string" where
  "joinSlash [] = []"
| "joinSlash [x] = x"
| "joinSlash (x # y # zs) = x @ CHR ''/'' # joinSlash (y # zs)"

text \<open>One element of the path against the elements written so far, the last one first.\<close>

definition cleanStep :: "bool \<Rightarrow> string list \<Rightarrow> string \<Rightarrow> string list" where
  "cleanStep rooted out e =
     (if e = [] \<or> e = ''.'' then out
      else if e = ''..'' then
        (case out of
           [] \<Rightarrow> (if rooted then [] else [''..''])
         | t # ts \<Rightarrow> (if t = ''..'' then ''..'' # out else ts))
      else e # out)"

definition filepath_Clean :: "string \<Rightarrow> string" where
  "filepath_Clean path =
     (if path = [] then ''.''
      else (let rooted = (hd path = CHR ''/'');
                out = joinSlash (rev (foldl (cleanStep rooted) [] (strings_Split path)))
            in if rooted then CHR ''/'' # out else if out = [] then ''.'' else out))"

subsection \<open>Path resolution\<close>

text \<open>The loop of \<open>findLastKnownInode\<close> over the components that are left.\<close>

fun walk :: "'w word connector \<Rightarrow> addr \<Rightarrow> string list \<Rightarrow> addr \<times> string list" where
  "walk s node [] = (node, [])"
| "walk s node (component # comps) =
     (if length component = 0 then walk s node comps
      else (case mapGet (children (inodes s node)) component of
              None \<Rightarrow> (node, component # comps)
            | Some next \<Rightarrow> walk s next comps))"

definition findLastKnownInode :: "'w word connector \<Rightarrow> string \<Rightarrow> addr \<times> string list" where
  "findLastKnownInode s fullPath =
     (if fullPath = [] then (rootNode s, [])
      else walk s (rootNode s) (strings_Split (strings_TrimLeft (filepath_Clean fullPath))))"

definition findInode :: "'w word connector \<Rightarrow> string \<Rightarrow> addr option" where
  "findInode s fullPath =
     (case findLastKnownInode s fullPath of
        (n, rest) \<Rightarrow> if 0 < length rest then None else Some n)"

subsection \<open>Mount and unmount\<close>

definition mountRoot :: "'w word connector \<Rightarrow> nat \<Rightarrow> nat option \<Rightarrow> 'w word connector" where
  "mountRoot s nodeFs opts = emit (mountFs s (rootNode s) nodeFs opts) (EvFsMount nodeFs)"

text \<open>
  The options a mount inherits when none are given: \<open>me.rootNode.mountPoint.options\<close>,
  a panic when the root has no mount.
\<close>

definition inheritOptions :: "'w word connector \<Rightarrow> nat option \<Rightarrow> nat option option" where
  "inheritOptions s opts =
     (if opts = None
      then (case mountPoint (inodes s (rootNode s)) of
              None \<Rightarrow> None
            | Some m \<Rightarrow> Some (options (fsMounts s m)))
      else Some opts)"

text \<open>
  \<open>parent.mounts[base] = node.mountPoint\<close>, after making the map if it is \<open>nil\<close>. The maps
  of the model hold no \<open>nil\<close> values: a \<open>nil\<close> stored under a name reads like no entry.
\<close>

definition setMountEntry ::
  "'w word connector \<Rightarrow> addr \<Rightarrow> string \<Rightarrow> maddr option \<Rightarrow> 'w word connector" where
  "setMountEntry s parent base m =
     updInode s parent (\<lambda>i. i\<lparr>mounts :=
       (let al = (case mounts i of None \<Rightarrow> [] | Some al \<Rightarrow> al)
        in Some (case m of None \<Rightarrow> AList.delete base al | Some x \<Rightarrow> AList.update base x al))\<rparr>)"

definition Mount ::
  "'w::len word connector \<Rightarrow> string \<Rightarrow> nat \<Rightarrow> nat option
     \<Rightarrow> (error \<times> 'w word connector) + (Status \<times> 'w word connector)" where
  "Mount s mountPt nodeFs opts =
     (if mountPt = ''/'' \<or> mountPt = [] then Inr (OK, mountRoot s nodeFs opts)
      else (case filepath_Split mountPt of (dirParent, base) \<Rightarrow>
        (case findInode s dirParent of
           None \<Rightarrow> Inr (ENOENT, s)
         | Some parent \<Rightarrow>
             if mount (inodes s parent) = None then Inr (ENOENT, s)
             else if mapGet (children (inodes s parent)) base \<noteq> None then Inr (EBUSY, s)
             else (case newInode s True of (s1, node) \<Rightarrow>
               (case inheritOptions s1 opts of
                  None \<Rightarrow> Inl (NilDereference, s1)
                | Some opts1 \<Rightarrow>
                    (case addChild (mountFs s1 node nodeFs opts1) parent base node of
                       Inl e \<Rightarrow> Inl e
                     | Inr s2 \<Rightarrow>
                         Inr (OK, emit (setMountEntry s2 parent base (mountPoint (inodes s2 node)))
                                    (EvFsMount nodeFs))))))))"


subsection \<open>Notifications\<close>

text \<open>
  \<open>fsInit\<close> is the way back to the kernel. It answers every notification with a status:
  the parameter \<open>reply\<close>. The notification itself is appended to \<^const>\<open>sent\<close>.
\<close>

definition notify :: "(event \<Rightarrow> Status) \<Rightarrow> 'w word connector \<Rightarrow> event \<Rightarrow> Status \<times> 'w word connector" where
  "notify reply s e = (reply e, emit s e)"

definition FileNotify ::
  "(event \<Rightarrow> Status) \<Rightarrow> 'w word connector \<Rightarrow> string \<Rightarrow> int \<Rightarrow> int \<Rightarrow> Status \<times> 'w word connector" where
  "FileNotify reply s path off len =
     (case findInode s path of
        None \<Rightarrow> (ENOENT, s)
      | Some node \<Rightarrow> notify reply s (EvInodeNotify (nodeId (inodes s node)) off len))"



section \<open>Notions for the properties\<close>

text \<open>
  What a run of the garbage collector may change: child maps and the handle registry,
  nothing else.
\<close>

definition sameButChildren :: "'w word connector \<Rightarrow> 'w word connector \<Rightarrow> bool" where
  "sameButChildren s s' \<longleftrightarrow>
     s' = s\<lparr>inodes := inodes s', inodeMap := inodeMap s'\<rparr> \<and>
     (\<forall>a. inodes s' a = (inodes s a)\<lparr>children := children (inodes s' a)\<rparr>)"

text \<open>
  One run of the garbage collector, or a part of one, from \<open>s\<close> to \<open>s'\<close>: child maps only
  lose entries, an entry that leads to a mount point stays, and a handle stays registered
  when every inode that carries it is a mount point.
\<close>

definition gcStep :: "'w word connector \<Rightarrow> 'w word connector \<Rightarrow> bool" where
  "gcStep s s' \<longleftrightarrow>
     sameButChildren s s' \<and>
     (\<forall>a k v. mapGet (children (inodes s' a)) k = Some v \<longrightarrow>
        mapGet (children (inodes s a)) k = Some v) \<and>
     (\<forall>a k v. mapGet (children (inodes s a)) k = Some v \<and> mountPoint (inodes s v) \<noteq> None \<longrightarrow>
        mapGet (children (inodes s' a)) k = Some v) \<and>
     (\<forall>h x. map_of (inodeMap s) h = Some x \<and>
        (\<forall>a. nodeId (inodes s a) = h \<longrightarrow> mountPoint (inodes s a) \<noteq> None) \<longrightarrow>
        map_of (inodeMap s') h = Some x)"

subsection \<open>A store to run the operations on\<close>

text \<open>
  The root (address 0) holds the mount \<open>data\<close> (address 1) and the directory \<open>a\<close>
  (address 2); \<open>a\<close> holds the directory \<open>b\<close> (3) and the file \<open>x\<close> (4, looked up once);
  \<open>b\<close> holds the file \<open>c\<close> (5). \<open>negStore\<close> is the same store with the count of \<open>x\<close> at -1.
\<close>

definition exInode :: "nat \<Rightarrow> (string \<times> addr) list option \<Rightarrow> 32 word \<Rightarrow> maddr option \<Rightarrow> maddr option \<Rightarrow> 32 word inode" where
  "exInode i cs c mp m = \<lparr>nodeId = i, children = cs, mounts = None, lookupCount = c, mountPoint = mp, mount = m, openFiles = []\<rparr>"

definition exStore :: "32 word connector" where
  "exStore = \<lparr>inodes = (\<lambda>_. zeroInode)
       (0 := (exInode 1 (Some [(''data'', 1), (''a'', 2)]) 0 (Some 0) (Some 0))\<lparr>mounts := Some [(''data'', 1)]\<rparr>,
        1 := exInode 2 (Some []) 1 (Some 1) (Some 1),
        2 := exInode 3 (Some [(''b'', 3), (''x'', 4)]) 0 None (Some 0),
        3 := exInode 4 (Some [(''c'', 5)]) 0 None (Some 0),
        4 := exInode 5 None 1 None (Some 0),
        5 := exInode 6 None 0 None (Some 0)),
     nextInode = 6,
     fsMounts = (\<lambda>_. \<lparr>mountInode = None, fs = 0, options = None, mountOpenFiles = 0\<rparr>)
       (0 := \<lparr>mountInode = Some 0, fs = 10, options = Some 7, mountOpenFiles = 0\<rparr>,
        1 := \<lparr>mountInode = Some 1, fs = 11, options = Some 7, mountOpenFiles = 0\<rparr>),
     nextMount = 2,
     inodeMap = [(6, 5), (5, 4), (4, 3), (3, 2), (2, 1), (1, 0)],
     rootNode = 0,
     sent = []\<rparr>"

definition negStore :: "32 word connector" where
  "negStore = updInode exStore 4 (\<lambda>i. i\<lparr>lookupCount := - 1\<rparr>)"

text \<open>
  Variants of the store: the directory \<open>a\<close> without a mount, and the mount \<open>data\<close> with an
  open file.
\<close>

definition noMountStore :: "32 word connector" where
  "noMountStore = updInode exStore 2 (\<lambda>i. i\<lparr>mount := None\<rparr>)"





subsection \<open>Path resolution, as the specification words it\<close>

text \<open>
  \<open>resolve s n cs\<close> consumes the components \<open>cs\<close> one after the other, each through the
  exact entry of that name in the child map of the node reached so far; it is \<open>None\<close> as
  soon as an entry is missing. \<open>pathComps\<close> are the components \<open>findLastKnownInode\<close> walks.
\<close>

fun resolve :: "'w word connector \<Rightarrow> addr \<Rightarrow> string list \<Rightarrow> addr option" where
  "resolve s n [] = Some n"
| "resolve s n (c # cs) =
     (case mapGet (children (inodes s n)) c of None \<Rightarrow> None | Some n' \<Rightarrow> resolve s n' cs)"

definition pathComps :: "string \<Rightarrow> string list" where
  "pathComps p = (if p = [] then [] else strings_Split (strings_TrimLeft (filepath_Clean p)))"

text \<open>The components of a path as it is written: its pieces between slashes.\<close>

definition rawComps :: "string \<Rightarrow> string list" where
  "rawComps p = filter (\<lambda>c. c \<noteq> []) (strings_Split p)"

subsection \<open>Stores on which the garbage collector returns\<close>

text \<open>
  The recursion of \<open>considerDropInode\<close> follows the child entries that do not lead to a
  mount point. It ends when these entries form a forest: when some rank \<open>rk\<close> of the inodes
  falls along each of them.
\<close>

definition ranked :: "(addr \<Rightarrow> nat) \<Rightarrow> 'w word connector \<Rightarrow> bool" where
  "ranked rk s \<longleftrightarrow>
     (\<forall>a k v. mapGet (children (inodes s a)) k = Some v \<and> mountPoint (inodes s v) = None \<longrightarrow>
        rk v < rk a)"

text \<open>A rank for the store of the examples.\<close>

definition exRank :: "addr \<Rightarrow> nat" where
  "exRank a = (if a = 0 then 3 else if a = 2 then 2 else if a = 3 then 1 else 0)"

subsection \<open>Runs of lookups and forgets\<close>







section \<open>Properties\<close>

lemmas ex_defs = exStore_def exInode_def zeroInode_def updInode_def updMount_def

subsection \<open>What the garbage collector leaves alone\<close>

lemma sameButChildren_refl: "sameButChildren s s"
  by (simp add: sameButChildren_def)

lemma sameButChildren_fields:
  assumes "sameButChildren s s'"
  shows "nodeId (inodes s' a) = nodeId (inodes s a)"
    and "lookupCount (inodes s' a) = lookupCount (inodes s a)"
    and "mountPoint (inodes s' a) = mountPoint (inodes s a)"
    and "mount (inodes s' a) = mount (inodes s a)"
    and "mounts (inodes s' a) = mounts (inodes s a)"
    and "openFiles (inodes s' a) = openFiles (inodes s a)"
    and "rootNode s' = rootNode s"
    and "nextInode s' = nextInode s"
    and "fsMounts s' = fsMounts s"
    and "nextMount s' = nextMount s"
    and "sent s' = sent s"
proof -
  from assms have eq: "inodes s' a = (inodes s a)\<lparr>children := children (inodes s' a)\<rparr>"
    and st: "s' = s\<lparr>inodes := inodes s', inodeMap := inodeMap s'\<rparr>"
    by (simp_all add: sameButChildren_def)
  show "nodeId (inodes s' a) = nodeId (inodes s a)" by (subst eq) simp
  show "lookupCount (inodes s' a) = lookupCount (inodes s a)" by (subst eq) simp
  show "mountPoint (inodes s' a) = mountPoint (inodes s a)" by (subst eq) simp
  show "mount (inodes s' a) = mount (inodes s a)" by (subst eq) simp
  show "mounts (inodes s' a) = mounts (inodes s a)" by (subst eq) simp
  show "openFiles (inodes s' a) = openFiles (inodes s a)" by (subst eq) simp
  show "rootNode s' = rootNode s" by (subst st) simp
  show "nextInode s' = nextInode s" by (subst st) simp
  show "fsMounts s' = fsMounts s" by (subst st) simp
  show "nextMount s' = nextMount s" by (subst st) simp
  show "sent s' = sent s" by (subst st) simp
qed

lemma sameButChildren_trans:
  assumes a: "sameButChildren s s1" and b: "sameButChildren s1 s2"
  shows "sameButChildren s s2"
  unfolding sameButChildren_def
proof (intro conjI allI)
  show "s2 = s\<lparr>inodes := inodes s2, inodeMap := inodeMap s2\<rparr>"
    using sameButChildren_fields(7-11)[OF a] sameButChildren_fields(7-11)[OF b]
    by (cases s; cases s2) simp
  fix x
  show "inodes s2 x = (inodes s x)\<lparr>children := children (inodes s2 x)\<rparr>"
    using sameButChildren_fields(1-6)[OF a, of x] sameButChildren_fields(1-6)[OF b, of x]
    by (cases "inodes s x"; cases "inodes s2 x") simp
qed

lemma gcStep_refl: "gcStep s s"
  by (simp add: gcStep_def sameButChildren_refl)

lemma gcStep_trans:
  assumes a: "gcStep s s1" and b: "gcStep s1 s2"
  shows "gcStep s s2"
proof -
  from a have fa: "sameButChildren s s1" by (simp add: gcStep_def)
  from b have fb: "sameButChildren s1 s2" by (simp add: gcStep_def)
  note fl = sameButChildren_fields[OF fa]
  show ?thesis
    unfolding gcStep_def
  proof (intro conjI allI impI)
    show "sameButChildren s s2" by (rule sameButChildren_trans[OF fa fb])
  next
    fix x k v assume "mapGet (children (inodes s2 x)) k = Some v"
    with b have "mapGet (children (inodes s1 x)) k = Some v" unfolding gcStep_def by blast
    with a show "mapGet (children (inodes s x)) k = Some v" unfolding gcStep_def by blast
  next
    fix x k v
    assume h: "mapGet (children (inodes s x)) k = Some v \<and> mountPoint (inodes s v) \<noteq> None"
    with a have "mapGet (children (inodes s1 x)) k = Some v" unfolding gcStep_def by blast
    moreover from h have "mountPoint (inodes s1 v) \<noteq> None" by (simp add: fl(3))
    ultimately show "mapGet (children (inodes s2 x)) k = Some v"
      using b unfolding gcStep_def by blast
  next
    fix h x
    assume h: "map_of (inodeMap s) h = Some x \<and>
      (\<forall>a. nodeId (inodes s a) = h \<longrightarrow> mountPoint (inodes s a) \<noteq> None)"
    with a have "map_of (inodeMap s1) h = Some x" unfolding gcStep_def by blast
    moreover from h have "\<forall>a. nodeId (inodes s1 a) = h \<longrightarrow> mountPoint (inodes s1 a) \<noteq> None"
      by (simp add: fl(1,3))
    ultimately show "map_of (inodeMap s2) h = Some x"
      using b unfolding gcStep_def by blast
  qed
qed

lemma mapGet_mapDelete: "mapGet (mapDelete m k) k' = (if k' = k then None else mapGet m k')"
  by (cases m) (simp_all add: mapGet_def mapDelete_def AList.delete_conv')

lemma rmChild_gcStep:
  assumes r: "rmChild s n k = (s', Some ch)" and nm: "mountPoint (inodes s ch) = None"
  shows "gcStep (s :: 'w::len word connector) (s'\<lparr>inodeMap := Forget (inodeMap s') (nodeId (inodes s' ch))\<rparr>)"
proof -
  from r have g: "mapGet (children (inodes s n)) k = Some ch"
    and s': "s' = updInode s n (\<lambda>i. i\<lparr>children := mapDelete (children i) k\<rparr>)"
    by (auto simp: rmChild_def split: option.splits)
  have nid: "nodeId (inodes s' ch) = nodeId (inodes s ch)"
    by (simp add: s' updInode_def)
  show ?thesis
    unfolding gcStep_def
  proof (intro conjI allI impI)
    show "sameButChildren s (s'\<lparr>inodeMap := Forget (inodeMap s') (nodeId (inodes s' ch))\<rparr>)"
      by (simp add: sameButChildren_def s' updInode_def)
  next
    fix a k' v
    assume "mapGet (children (inodes (s'\<lparr>inodeMap := Forget (inodeMap s') (nodeId (inodes s' ch))\<rparr>) a)) k' = Some v"
    then show "mapGet (children (inodes s a)) k' = Some v"
      by (auto simp: s' updInode_def mapGet_mapDelete split: if_splits)
  next
    fix a k' v
    assume "mapGet (children (inodes s a)) k' = Some v \<and> mountPoint (inodes s v) \<noteq> None"
    with g nm show "mapGet (children (inodes (s'\<lparr>inodeMap := Forget (inodeMap s') (nodeId (inodes s' ch))\<rparr>) a)) k' = Some v"
      by (auto simp: s' updInode_def mapGet_mapDelete)
  next
    fix h x
    assume h: "map_of (inodeMap s) h = Some x \<and>
      (\<forall>a. nodeId (inodes s a) = h \<longrightarrow> mountPoint (inodes s a) \<noteq> None)"
    with nm have "h \<noteq> nodeId (inodes s ch)" by auto
    with h have "map_of (Forget (inodeMap s) (nodeId (inodes s ch))) h = Some x"
      by (simp add: Forget_def AList.delete_conv')
    moreover have "inodeMap s' = inodeMap s" by (simp add: s' updInode_def)
    ultimately show "map_of (inodeMap (s'\<lparr>inodeMap := Forget (inodeMap s') (nodeId (inodes s' ch))\<rparr>)) h = Some x"
      by (simp add: nid)
  qed
qed

lemma dropChildren_gcStep:
  "dropChildren s n ks = Inr s' \<Longrightarrow>
   \<forall>k\<in>set ks. \<forall>ch. mapGet (children (inodes s n)) k = Some ch \<longrightarrow> mountPoint (inodes s ch) = None \<Longrightarrow>
   gcStep (s :: 'w::len word connector) s'"
proof (induction ks arbitrary: s)
  case Nil
  then show ?case by (simp add: gcStep_refl)
next
  case (Cons k ks)
  from Cons.prems(1) obtain s1 ch where r: "rmChild s n k = (s1, Some ch)"
    and d: "dropChildren (s1\<lparr>inodeMap := Forget (inodeMap s1) (nodeId (inodes s1 ch))\<rparr>) n ks = Inr s'"
    by (auto split: prod.splits option.splits)
  from r have g: "mapGet (children (inodes s n)) k = Some ch"
    by (auto simp: rmChild_def split: option.splits)
  with Cons.prems(2) have nm: "mountPoint (inodes s ch) = None" by simp
  let ?s2 = "s1\<lparr>inodeMap := Forget (inodeMap s1) (nodeId (inodes s1 ch))\<rparr>"
  have st: "gcStep s ?s2" by (rule rmChild_gcStep[OF r nm])
  then have fr: "sameButChildren s ?s2" by (simp add: gcStep_def)
  have "\<forall>k\<in>set ks. \<forall>c. mapGet (children (inodes ?s2 n)) k = Some c \<longrightarrow> mountPoint (inodes ?s2 c) = None"
  proof (intro ballI allI impI)
    fix k' c assume k': "k' \<in> set ks" and c: "mapGet (children (inodes ?s2 n)) k' = Some c"
    from st c have "mapGet (children (inodes s n)) k' = Some c" unfolding gcStep_def by blast
    with Cons.prems(2) k' have "mountPoint (inodes s c) = None" by simp
    then show "mountPoint (inodes ?s2 c) = None" using sameButChildren_fields(3)[OF fr, of c] by simp
  qed
  from Cons.IH[OF d this] have "gcStep ?s2 s'" .
  with st show ?case by (rule gcStep_trans)
qed

lemma mapRange_mapGet: "(k, v) \<in> set (mapRange m) \<Longrightarrow> mapGet m k = Some v"
proof (cases m)
  case None
  assume "(k, v) \<in> set (mapRange m)"
  with None show ?thesis by (simp add: mapRange_def)
next
  case (Some al)
  assume "(k, v) \<in> set (mapRange m)"
  with Some have "(k, v) \<in> set (AList.clearjunk al)" by (simp add: mapRange_def)
  then have "map_of (AList.clearjunk al) k = Some v"
    by (rule map_of_is_SomeI[OF distinct_clearjunk])
  with Some show ?thesis by (simp add: mapGet_def map_of_clearjunk)
qed

lemma gc_gcStep:
  fixes s :: "'w::len word connector"
  shows "(\<forall>s' b. considerDropInode fuel s n = Inr (s', b) \<longrightarrow> gcStep s s')"
    and "(\<forall>s' acc'. scanChildren fuel s kvs acc = Inr (s', acc') \<longrightarrow>
           gcStep s s' \<and> (\<forall>k\<in>set acc'. k \<in> set acc \<or> (\<exists>v. (k, v) \<in> set kvs \<and> mountPoint (inodes s v) = None)))"
proof (induction fuel s n and fuel s kvs acc rule: considerDropInode_scanChildren.induct)
  case (1 s n)
  then show ?case by simp
next
  case (2 fuel s n)
  show ?case
  proof (intro allI impI)
    fix s' b assume r: "considerDropInode (Suc fuel) s n = Inr (s', b)"
    then obtain s1 del where sc: "scanChildren fuel s (mapRange (children (inodes s n))) [] = Inr (s1, del)"
      and dr: "dropChildren s1 n del = Inr s'"
      by (auto split: sum.splits prod.splits if_splits)
    from 2 sc have g1: "gcStep s s1"
      and acc: "\<forall>k\<in>set del. \<exists>v. (k, v) \<in> set (mapRange (children (inodes s n))) \<and> mountPoint (inodes s v) = None"
      by auto
    from g1 have fr: "sameButChildren s s1" by (simp add: gcStep_def)
    have "\<forall>k\<in>set del. \<forall>ch. mapGet (children (inodes s1 n)) k = Some ch \<longrightarrow> mountPoint (inodes s1 ch) = None"
    proof (intro ballI allI impI)
      fix k ch assume k: "k \<in> set del" and c: "mapGet (children (inodes s1 n)) k = Some ch"
      from acc k obtain v where v: "(k, v) \<in> set (mapRange (children (inodes s n)))"
        and nm: "mountPoint (inodes s v) = None" by blast
      from v have "mapGet (children (inodes s n)) k = Some v" by (rule mapRange_mapGet)
      moreover from g1 c have "mapGet (children (inodes s n)) k = Some ch" unfolding gcStep_def by blast
      ultimately have "ch = v" by simp
      with nm show "mountPoint (inodes s1 ch) = None" by (simp add: sameButChildren_fields(3)[OF fr])
    qed
    from dropChildren_gcStep[OF dr this] have "gcStep s1 s'" .
    with g1 show "gcStep s s'" by (rule gcStep_trans)
  qed
next
  case (3 fuel s delChildren)
  then show ?case by (simp add: gcStep_refl)
next
  case (4 fuel s k v kvs delChildren)
  show ?case
  proof (intro allI impI)
    fix s' acc' assume r: "scanChildren fuel s ((k, v) # kvs) delChildren = Inr (s', acc')"
    show "gcStep s s' \<and> (\<forall>ka\<in>set acc'. ka \<in> set delChildren \<or> (\<exists>va. (ka, va) \<in> set ((k, v) # kvs) \<and> mountPoint (inodes s va) = None))"
    proof (cases "mountPoint (inodes s v) = None")
      case True
      with r obtain s1 d where c: "considerDropInode fuel s v = Inr (s1, d)"
        and sc: "scanChildren fuel s1 kvs (if d then delChildren @ [k] else delChildren) = Inr (s', acc')"
        by (auto split: sum.splits prod.splits)
      from "4.IH"(1)[OF True] c have g1: "gcStep s s1" by blast
      then have fr: "sameButChildren s s1" by (simp add: gcStep_def)
      from "4.IH"(2)[OF True c refl] sc
      have g2: "gcStep s1 s'" and a2: "\<forall>ka\<in>set acc'. ka \<in> set (if d then delChildren @ [k] else delChildren) \<or>
          (\<exists>va. (ka, va) \<in> set kvs \<and> mountPoint (inodes s1 va) = None)"
        by blast+
      have "\<forall>ka\<in>set acc'. ka \<in> set delChildren \<or> (\<exists>va. (ka, va) \<in> set ((k, v) # kvs) \<and> mountPoint (inodes s va) = None)"
      proof
        fix ka assume "ka \<in> set acc'"
        with a2 have "ka \<in> set (if d then delChildren @ [k] else delChildren) \<or>
          (\<exists>va. (ka, va) \<in> set kvs \<and> mountPoint (inodes s1 va) = None)" by blast
        then show "ka \<in> set delChildren \<or> (\<exists>va. (ka, va) \<in> set ((k, v) # kvs) \<and> mountPoint (inodes s va) = None)"
          using True by (auto simp: sameButChildren_fields(3)[OF fr] split: if_splits)
      qed
      with gcStep_trans[OF g1 g2] show ?thesis by blast
    next
      case False
      with r have sc: "scanChildren fuel s kvs delChildren = Inr (s', acc')" by simp
      from "4.IH"(3)[OF False] sc show ?thesis by auto
    qed
  qed
qed

lemma gc_frame:
  fixes s :: "'w::len word connector"
  shows "considerDropInode fuel s n = Inr (s', b) \<Longrightarrow> sameButChildren s s'"
  using gc_gcStep(1)[of fuel s n] by (simp add: gcStep_def)

subsection \<open>The garbage collector returns\<close>

lemma ranked_gcStep:
  assumes "ranked rk s" and st: "gcStep s s'"
  shows "ranked rk s'"
  unfolding ranked_def
proof (intro allI impI)
  fix a k v
  assume h: "mapGet (children (inodes s' a)) k = Some v \<and> mountPoint (inodes s' v) = None"
  from st have fr: "sameButChildren s s'" by (simp add: gcStep_def)
  from st h have "mapGet (children (inodes s a)) k = Some v" unfolding gcStep_def by blast
  moreover from h have "mountPoint (inodes s v) = None"
    by (simp add: sameButChildren_fields(3)[OF fr])
  ultimately show "rk v < rk a" using assms(1) unfolding ranked_def by blast
qed

lemma dropChildren_returns:
  "distinct ks \<Longrightarrow> \<forall>k\<in>set ks. mapGet (children (inodes s n)) k \<noteq> None \<Longrightarrow>
   \<exists>s'. dropChildren s n ks = Inr s' \<and>
     (\<forall>a. a \<noteq> n \<longrightarrow> children (inodes s' a) = children (inodes s a))"
proof (induction ks arbitrary: s)
  case Nil
  then show ?case by simp
next
  case (Cons k ks)
  from Cons.prems(2) obtain ch where g: "mapGet (children (inodes s n)) k = Some ch" by auto
  define s1 where "s1 = updInode s n (\<lambda>i. i\<lparr>children := mapDelete (children i) k\<rparr>)"
  define s2 where "s2 = s1\<lparr>inodeMap := Forget (inodeMap s1) (nodeId (inodes s1 ch))\<rparr>"
  from g have r: "rmChild s n k = (s1, Some ch)" by (simp add: rmChild_def s1_def)
  have c2: "mapGet (children (inodes s2 n)) k' = (if k' = k then None else mapGet (children (inodes s n)) k')" for k'
    by (simp add: s2_def s1_def updInode_def mapGet_mapDelete)
  have o2: "children (inodes s2 a) = children (inodes s a)" if "a \<noteq> n" for a
    using that by (simp add: s2_def s1_def updInode_def)
  from Cons.prems have "\<forall>k'\<in>set ks. mapGet (children (inodes s2 n)) k' \<noteq> None"
    by (auto simp: c2)
  with Cons.IH[of s2] Cons.prems(1) obtain s' where d: "dropChildren s2 n ks = Inr s'"
    and o: "\<forall>a. a \<noteq> n \<longrightarrow> children (inodes s' a) = children (inodes s2 a)" by auto
  from r d have "dropChildren s n (k # ks) = Inr s'" by (simp add: s2_def)
  with o o2 show ?case by auto
qed

lemma gc_returns:
  fixes s :: "'w::len word connector"
  shows "ranked rk s \<longrightarrow> rk n < fuel \<longrightarrow>
      (\<exists>s' b. considerDropInode fuel s n = Inr (s', b) \<and>
         (\<forall>a. rk n < rk a \<longrightarrow> children (inodes s' a) = children (inodes s a)))"
    and "ranked rk s \<longrightarrow>
      (\<forall>R. (\<forall>(k, v)\<in>set kvs. mountPoint (inodes s v) = None \<longrightarrow> rk v < fuel \<and> rk v < R) \<longrightarrow>
      (\<exists>s' acc'. scanChildren fuel s kvs acc = Inr (s', acc') \<and>
         (\<forall>a. R \<le> rk a \<longrightarrow> children (inodes s' a) = children (inodes s a)) \<and>
         set acc' \<subseteq> set acc \<union> fst ` set kvs \<and>
         (distinct (map fst kvs) \<and> distinct acc \<and> set acc \<inter> fst ` set kvs = {} \<longrightarrow> distinct acc')))"
proof (induction fuel s n and fuel s kvs acc rule: considerDropInode_scanChildren.induct)
  case (1 s n)
  then show ?case by simp
next
  case (2 fuel s n)
  show ?case
  proof (intro impI)
    assume rk: "ranked rk s" and lt: "rk n < Suc fuel"
    let ?kvs = "mapRange (children (inodes s n))"
    have pre: "\<forall>(k, v)\<in>set ?kvs. mountPoint (inodes s v) = None \<longrightarrow> rk v < fuel \<and> rk v < rk n"
    proof (clarify)
      fix k v assume "(k, v) \<in> set ?kvs" and nm: "mountPoint (inodes s v) = None"
      then have "mapGet (children (inodes s n)) k = Some v" by (simp add: mapRange_mapGet)
      with rk nm have "rk v < rk n" unfolding ranked_def by blast
      with lt show "rk v < fuel \<and> rk v < rk n" by simp
    qed
    have dk: "distinct (map fst ?kvs)"
      by (cases "children (inodes s n)") (simp_all add: mapRange_def)
    from "2.IH" rk pre dk obtain s1 del where
      sc: "scanChildren fuel s ?kvs [] = Inr (s1, del)"
      and un: "\<forall>a. rk n \<le> rk a \<longrightarrow> children (inodes s1 a) = children (inodes s a)"
      and sub: "set del \<subseteq> fst ` set ?kvs" and dd: "distinct del"
      by (auto simp del: considerDropInode.simps scanChildren.simps)
    have "\<forall>k\<in>set del. mapGet (children (inodes s1 n)) k \<noteq> None"
    proof
      fix k assume "k \<in> set del"
      with sub obtain v where "(k, v) \<in> set ?kvs" by auto
      then have "mapGet (children (inodes s n)) k = Some v" by (rule mapRange_mapGet)
      with un show "mapGet (children (inodes s1 n)) k \<noteq> None" by simp
    qed
    from dropChildren_returns[OF dd this] obtain s2 where
      dr: "dropChildren s1 n del = Inr s2"
      and o: "\<forall>a. a \<noteq> n \<longrightarrow> children (inodes s2 a) = children (inodes s1 a)" by blast
    from sc dr have "\<exists>b. considerDropInode (Suc fuel) s n = Inr (s2, b)" by auto
    then obtain b where r: "considerDropInode (Suc fuel) s n = Inr (s2, b)" ..
    have "\<forall>a. rk n < rk a \<longrightarrow> children (inodes s2 a) = children (inodes s a)"
      using un o by auto
    with r show "\<exists>s' b. considerDropInode (Suc fuel) s n = Inr (s', b) \<and>
         (\<forall>a. rk n < rk a \<longrightarrow> children (inodes s' a) = children (inodes s a))" by blast
  qed
next
  case (3 fuel s delChildren)
  then show ?case by simp
next
  case (4 fuel s k v kvs delChildren)
  show ?case
  proof (intro impI allI)
    fix R
    assume rk: "ranked rk s"
      and pre: "\<forall>(k, v)\<in>set ((k, v) # kvs). mountPoint (inodes s v) = None \<longrightarrow> rk v < fuel \<and> rk v < R"
    let ?goal = "\<exists>s' acc'. scanChildren fuel s ((k, v) # kvs) delChildren = Inr (s', acc') \<and>
         (\<forall>a. R \<le> rk a \<longrightarrow> children (inodes s' a) = children (inodes s a)) \<and>
         set acc' \<subseteq> set delChildren \<union> fst ` set ((k, v) # kvs) \<and>
         (distinct (map fst ((k, v) # kvs)) \<and> distinct delChildren \<and>
            set delChildren \<inter> fst ` set ((k, v) # kvs) = {} \<longrightarrow> distinct acc')"
    show ?goal
    proof (cases "mountPoint (inodes s v) = None")
      case True
      with pre have lt: "rk v < fuel" and ltR: "rk v < R" by auto
      from "4.IH"(1)[OF True] rk lt obtain s1 d where
        c: "considerDropInode fuel s v = Inr (s1, d)"
        and un1: "\<forall>a. rk v < rk a \<longrightarrow> children (inodes s1 a) = children (inodes s a)"
        by blast
      from gc_gcStep(1)[of fuel s v] c have st: "gcStep s s1" by blast
      then have fr: "sameButChildren s s1" by (simp add: gcStep_def)
      have rk1: "ranked rk s1" by (rule ranked_gcStep[OF rk st])
      have pre1: "\<forall>(k, v)\<in>set kvs. mountPoint (inodes s1 v) = None \<longrightarrow> rk v < fuel \<and> rk v < R"
        using pre by (auto simp: sameButChildren_fields(3)[OF fr])
      let ?acc = "if d then delChildren @ [k] else delChildren"
      from "4.IH"(2)[OF True c refl] rk1 pre1 obtain s' acc' where
        sc: "scanChildren fuel s1 kvs ?acc = Inr (s', acc')"
        and un2: "\<forall>a. R \<le> rk a \<longrightarrow> children (inodes s' a) = children (inodes s1 a)"
        and sub: "set acc' \<subseteq> set ?acc \<union> fst ` set kvs"
        and dis: "distinct (map fst kvs) \<and> distinct ?acc \<and> set ?acc \<inter> fst ` set kvs = {} \<longrightarrow> distinct acc'"
        by blast
      from True c sc have r: "scanChildren fuel s ((k, v) # kvs) delChildren = Inr (s', acc')"
        by simp
      have u: "\<forall>a. R \<le> rk a \<longrightarrow> children (inodes s' a) = children (inodes s a)"
        using un1 un2 ltR by auto
      have sb: "set acc' \<subseteq> set delChildren \<union> fst ` set ((k, v) # kvs)"
        using sub by (auto split: if_splits)
      have di: "distinct acc'"
        if "distinct (map fst ((k, v) # kvs)) \<and> distinct delChildren \<and>
            set delChildren \<inter> fst ` set ((k, v) # kvs) = {}"
      proof -
        from that have "distinct (map fst kvs)" "distinct ?acc" "set ?acc \<inter> fst ` set kvs = {}"
          by auto
        with dis show ?thesis by blast
      qed
      from r u sb di show ?thesis by blast
    next
      case False
      from pre have pre1: "\<forall>(k, v)\<in>set kvs. mountPoint (inodes s v) = None \<longrightarrow> rk v < fuel \<and> rk v < R"
        by auto
      from "4.IH"(3)[OF False] rk pre1 obtain s' acc' where
        sc: "scanChildren fuel s kvs delChildren = Inr (s', acc')"
        and un2: "\<forall>a. R \<le> rk a \<longrightarrow> children (inodes s' a) = children (inodes s a)"
        and sub: "set acc' \<subseteq> set delChildren \<union> fst ` set kvs"
        and dis: "distinct (map fst kvs) \<and> distinct delChildren \<and> set delChildren \<inter> fst ` set kvs = {} \<longrightarrow> distinct acc'"
        by blast
      from False sc have r: "scanChildren fuel s ((k, v) # kvs) delChildren = Inr (s', acc')"
        by auto
      have sb: "set acc' \<subseteq> set delChildren \<union> fst ` set ((k, v) # kvs)"
        using sub by auto
      have di: "distinct acc'"
        if "distinct (map fst ((k, v) # kvs)) \<and> distinct delChildren \<and>
            set delChildren \<inter> fst ` set ((k, v) # kvs) = {}"
      proof -
        from that have "distinct (map fst kvs)" "distinct delChildren" "set delChildren \<inter> fst ` set kvs = {}"
          by auto
        with dis show ?thesis by blast
      qed
      from r un2 sb di show ?thesis by blast
    qed
  qed
qed

lemma ranked_cong:
  assumes "\<And>a. children (inodes s' a) = children (inodes s a)"
    and "\<And>a. mountPoint (inodes s' a) = mountPoint (inodes s a)"
  shows "ranked rk s' = ranked rk s"
  by (simp add: ranked_def assms)

lemma ranked_count:
  "ranked rk (updInode s n (\<lambda>i. i\<lparr>lookupCount := c i\<rparr>)) = ranked rk s"
  by (rule ranked_cong) (simp_all add: updInode_def)

lemma exStore_ranked: "ranked exRank exStore"
  unfolding ranked_def
proof (intro allI impI)
  fix a k v
  assume h: "mapGet (children (inodes exStore a)) k = Some v \<and> mountPoint (inodes exStore v) = None"
  then have "a = 0 \<and> v = 2 \<or> a = 2 \<and> (v = 3 \<or> v = 4) \<or> a = 3 \<and> v = 5"
    by (auto simp: ex_defs mapGet_def split: if_splits)
  then show "exRank v < exRank a" by (auto simp: exRank_def)
qed

lemma negStore_ranked: "ranked exRank negStore"
  by (simp add: negStore_def ranked_count exStore_ranked)

subsection \<open>The verdict of the garbage collector\<close>

lemma negStore_gc: "considerDropInode 1 negStore 4 = Inr (negStore, True)"
  by (simp add: negStore_def exStore_def updInode_def exInode_def mapRange_def mapLen_def Let_def)

text \<open>
  C1, as the code has it. When \<open>considerDropInode\<close> returns for an inode \<open>n\<close>, it reports
  \<open>n\<close> collectible if and only if, in the store it leaves, \<open>n\<close> has no children, the
  lookup count of \<open>n\<close> is not positive (zero or negative), \<open>n\<close> is not the root, \<open>n\<close> is
  not a mount point and \<open>n\<close> has no open files. And it does return, on every ranked store,
  with fuel above the rank of \<open>n\<close>.
\<close>

theorem considerDropInode_collectible:
  fixes s :: "'w::len word connector"
  shows "(\<forall>s' b. considerDropInode fuel s n = Inr (s', b) \<longrightarrow>
      (b \<longleftrightarrow>
        mapLen (children (inodes s' n)) = 0 \<and> lookupCount (inodes s' n) \<le>s 0 \<and>
        n \<noteq> rootNode s' \<and> mountPoint (inodes s' n) = None \<and>
        length (openFiles (inodes s' n)) = 0)) \<and>
     (ranked rk s \<and> rk n < fuel \<longrightarrow> (\<exists>s' b. considerDropInode fuel s n = Inr (s', b)))"
proof (intro conjI allI impI)
  fix s' b assume r: "considerDropInode fuel s n = Inr (s', b)"
  show "b \<longleftrightarrow>
        mapLen (children (inodes s' n)) = 0 \<and> lookupCount (inodes s' n) \<le>s 0 \<and>
        n \<noteq> rootNode s' \<and> mountPoint (inodes s' n) = None \<and>
        length (openFiles (inodes s' n)) = 0"
  proof (cases fuel)
    case 0
    with r show ?thesis by simp
  next
    case (Suc f)
    with r show ?thesis
      by (auto simp: signed.not_less split: sum.splits prod.splits if_splits)
  qed
next
  assume "ranked rk s \<and> rk n < fuel"
  with gc_returns(1)[of rk s n fuel] show "\<exists>s' b. considerDropInode fuel s n = Inr (s', b)"
    by blast
qed

theorem considerDropInode_collectible_witness:
  "considerDropInode 1 negStore 4 = Inr (negStore, True) \<and>
   mapLen (children (inodes negStore 4)) = 0 \<and> lookupCount (inodes negStore 4) \<le>s 0 \<and>
   4 \<noteq> rootNode negStore \<and> mountPoint (inodes negStore 4) = None \<and>
   length (openFiles (inodes negStore 4)) = 0 \<and>
   ranked exRank negStore \<and> exRank 4 < 1 \<and>
   \<not> isl (considerDropInode 1 negStore 4)"
proof -
  note t = considerDropInode_collectible[of 1 negStore 4 exRank]
  have rk: "exRank 4 < 1" by (simp add: exRank_def)
  from t negStore_ranked rk obtain s' b where "considerDropInode 1 negStore 4 = Inr (s', b)"
    by blast
  then have i: "\<not> isl (considerDropInode 1 negStore 4)" by simp
  from t negStore_gc have "mapLen (children (inodes negStore 4)) = 0 \<and>
      lookupCount (inodes negStore 4) \<le>s 0 \<and>
      4 \<noteq> rootNode negStore \<and> mountPoint (inodes negStore 4) = None \<and>
      length (openFiles (inodes negStore 4)) = 0" by blast
  with negStore_gc negStore_ranked rk i show ?thesis by simp
qed

text \<open>
  C1 as the specification states it asks for a lookup count equal to 0. An inode whose
  count is -1 is reported collectible all the same.
\<close>

theorem considerDropInode_negative_count_counterexample:
  "considerDropInode 1 negStore 4 = Inr (negStore, True) \<and> lookupCount (inodes negStore 4) \<noteq> 0"
  by (simp add: negStore_def exStore_def updInode_def exInode_def mapRange_def mapLen_def Let_def)

subsection \<open>Forget\<close>

lemma exStore_handle: "getInodeData exStore 5 = Some 4"
  by (simp add: getInodeData_def FUSE_ROOT_ID_def DecodeHandle_def exStore_def)

text \<open>
  C3. When \<open>forgetUpdate\<close> returns, the lookup count of the inode that the identifier
  names is the old count minus the decrement, in the arithmetic of Go's \<open>int\<close>; whenever
  the difference of the two signed values fits the width, the signed value of the new count
  is exactly that difference. Nothing is clamped: the count can be negative. And it does
  return, on every ranked store, with fuel above the rank of the inode.
\<close>

theorem forgetUpdate_subtracts:
  fixes s :: "'w::len word connector"
  assumes h: "getInodeData s nodeid = Some n"
  shows "(\<forall>s'. forgetUpdate fuel s nodeid c = Inr s' \<longrightarrow>
      lookupCount (inodes s' n) = lookupCount (inodes s n) - c \<and>
      (- (2 ^ (LENGTH('w) - 1)) \<le> sint (lookupCount (inodes s n)) - sint c \<and>
        sint (lookupCount (inodes s n)) - sint c < 2 ^ (LENGTH('w) - 1) \<longrightarrow>
       sint (lookupCount (inodes s' n)) = sint (lookupCount (inodes s n)) - sint c)) \<and>
     (ranked rk s \<and> rk n < fuel \<longrightarrow> (\<exists>s'. forgetUpdate fuel s nodeid c = Inr s'))"
proof (intro conjI allI impI)
  define s1 where "s1 = updInode s n (\<lambda>i. i\<lparr>lookupCount := lookupCount i - c\<rparr>)"
  {
    fix s' assume r: "forgetUpdate fuel s nodeid c = Inr s'"
    with h obtain b where "considerDropInode fuel s1 n = Inr (s', b)"
      by (auto simp: forgetUpdate_def Let_def s1_def split: sum.splits prod.splits)
    from gc_frame[OF this] have "lookupCount (inodes s' n) = lookupCount (inodes s1 n)"
      by (rule sameButChildren_fields(2))
    then show eq: "lookupCount (inodes s' n) = lookupCount (inodes s n) - c"
      by (simp add: s1_def updInode_def)
    assume "- (2 ^ (LENGTH('w) - 1)) \<le> sint (lookupCount (inodes s n)) - sint c \<and>
        sint (lookupCount (inodes s n)) - sint c < 2 ^ (LENGTH('w) - 1)"
    then have "sint (lookupCount (inodes s n) - c) = sint (lookupCount (inodes s n)) - sint c"
      by (simp add: sint_word_diff signed_take_bit_int_eq_self)
    with eq show "sint (lookupCount (inodes s' n)) = sint (lookupCount (inodes s n)) - sint c"
      by simp
  }
  assume "ranked rk s \<and> rk n < fuel"
  then have "ranked rk s1" and "rk n < fuel" by (simp_all add: s1_def ranked_count)
  with gc_returns(1)[of rk s1 n fuel] obtain s' b where "considerDropInode fuel s1 n = Inr (s', b)"
    by blast
  with h show "\<exists>s'. forgetUpdate fuel s nodeid c = Inr s'"
    by (simp add: forgetUpdate_def Let_def s1_def)
qed

theorem forgetUpdate_subtracts_witness:
  "getInodeData exStore 5 = Some 4 \<and> lookupCount (inodes exStore 4) = 1 \<and>
   ranked exRank exStore \<and> exRank 4 < 1 \<and>
   \<not> isl (forgetUpdate 1 exStore 5 3) \<and>
   lookupCount (inodes (projr (forgetUpdate 1 exStore 5 3)) 4) = 1 - 3 \<and>
   sint (lookupCount (inodes (projr (forgetUpdate 1 exStore 5 3)) 4)) = - 2"
proof -
  note t = forgetUpdate_subtracts[OF exStore_handle, of 1 3 exRank]
  have rk: "exRank 4 < 1" by (simp add: exRank_def)
  from t exStore_ranked rk obtain s' where r: "forgetUpdate 1 exStore 5 3 = Inr s'" by blast
  have c: "lookupCount (inodes exStore 4) = 1" by (simp add: ex_defs)
  from t r c have "lookupCount (inodes s' 4) = 1 - 3 \<and> sint (lookupCount (inodes s' 4)) = - 2"
    by simp
  with r c exStore_handle exStore_ranked rk show ?thesis by simp
qed

subsection \<open>Rename\<close>







text \<open>
  C5. If the parents belong to different mounts, or no child named \<open>oldName\<close> exists under
  \<open>oldParent\<close>, \<open>renameUpdate\<close> panics; the store at the panic is the store of the call, so
  nothing of the rename has been done, and no status is returned.
\<close>

theorem renameUpdate_panics:
  fixes s :: "'w::len word connector"
  assumes "mount (inodes s oldParent) \<noteq> mount (inodes s newParent) \<or>
           mapGet (children (inodes s oldParent)) oldName = None"
  shows "renameUpdate s oldParent oldName newParent newName =
     Inl (Panic (if mount (inodes s oldParent) \<noteq> mount (inodes s newParent)
                 then ''Cross mount rename'' else ''Source of rename does not exist''), s)"
  using assms by (auto simp: renameUpdate_def rmChild_def)

theorem renameUpdate_panics_witness:
  "mount (inodes exStore 0) \<noteq> mount (inodes exStore 1) \<and>
   renameUpdate exStore 0 ''a'' 1 ''a'' = Inl (Panic ''Cross mount rename'', exStore) \<and>
   mount (inodes exStore 2) = mount (inodes exStore 3) \<and>
   mapGet (children (inodes exStore 2)) ''y'' = None \<and>
   renameUpdate exStore 2 ''y'' 3 ''c'' = Inl (Panic ''Source of rename does not exist'', exStore)"
proof -
  have a: "mount (inodes exStore 0) \<noteq> mount (inodes exStore 1)"
    and b: "mount (inodes exStore 2) = mount (inodes exStore 3)"
    and c: "mapGet (children (inodes exStore 2)) ''y'' = None"
    by (simp_all add: ex_defs mapGet_def)
  from a have a': "mount (inodes exStore 0) \<noteq> mount (inodes exStore 1) \<or>
      mapGet (children (inodes exStore 0)) ''a'' = None" by simp
  from c have c': "mount (inodes exStore 2) \<noteq> mount (inodes exStore 3) \<or>
      mapGet (children (inodes exStore 2)) ''y'' = None" by simp
  from renameUpdate_panics[OF a', of "''a''"] renameUpdate_panics[OF c', of "''c''"] a b c
  show ?thesis by simp
qed

subsection \<open>Mount\<close>

lemmas path_defs = filepath_Split_def findInode_def findLastKnownInode_def filepath_Clean_def
  strings_TrimLeft_def cleanStep_def pathComps_def

text \<open>
  C10. \<open>Mount\<close> on \<open>/\<close> or on the empty path returns OK for every store, backend and
  options, whatever the root holds. The root is the same inode with the same identifier,
  children and lookup count; it is bound to a new mount of the backend, and the hook of
  the backend is called.
\<close>

theorem Mount_root:
  fixes s :: "'w::len word connector"
  shows "Mount s ''/'' nodeFs opts = Inr (OK, mountRoot s nodeFs opts) \<and>
     Mount s [] nodeFs opts = Inr (OK, mountRoot s nodeFs opts) \<and>
     rootNode (mountRoot s nodeFs opts) = rootNode s \<and>
     nodeId (inodes (mountRoot s nodeFs opts) (rootNode s)) = nodeId (inodes s (rootNode s)) \<and>
     children (inodes (mountRoot s nodeFs opts) (rootNode s)) = children (inodes s (rootNode s)) \<and>
     lookupCount (inodes (mountRoot s nodeFs opts) (rootNode s)) = lookupCount (inodes s (rootNode s)) \<and>
     mountPoint (inodes (mountRoot s nodeFs opts) (rootNode s)) = Some (nextMount s) \<and>
     mount (inodes (mountRoot s nodeFs opts) (rootNode s)) = Some (nextMount s) \<and>
     fsMounts (mountRoot s nodeFs opts) (nextMount s) =
       \<lparr>mountInode = Some (rootNode s), fs = nodeFs, options = opts, mountOpenFiles = 0\<rparr> \<and>
     inodeMap (mountRoot s nodeFs opts) = inodeMap s \<and>
     sent (mountRoot s nodeFs opts) = sent s @ [EvFsMount nodeFs]"
  by (simp add: Mount_def mountRoot_def mountFs_def emit_def updInode_def Let_def)

lemma path_q: "filepath_Split ''/q/m'' = (''/q/'', ''m'')"
  "filepath_Split ''/a/b'' = (''/a/'', ''b'')"
  "filepath_Split ''/a/m'' = (''/a/'', ''m'')"
  by (simp_all add: filepath_Split_def)

lemma find_q: "findInode exStore ''/q/'' = None" "findInode exStore ''/a/'' = Some 2"
  "findInode noMountStore ''/a/'' = Some 2"
  by (simp_all add: findInode_def findLastKnownInode_def filepath_Clean_def strings_TrimLeft_def
      cleanStep_def noMountStore_def ex_defs mapGet_def)

lemma split_neq: "''/q/m'' \<noteq> ''/''" "''/a/b'' \<noteq> ''/''" "''/q/m'' \<noteq> []" "''/a/b'' \<noteq> []"
  by simp_all

lemma noMount_a: "mount (inodes noMountStore 2) = None"
  "mount (inodes exStore 2) = Some 0" "mapGet (children (inodes exStore 2)) ''b'' = Some 3"
  by (simp_all add: noMountStore_def ex_defs mapGet_def)

text \<open>
  C7, as the code has it. For a mount point other than the root: \<open>Mount\<close> returns ENOENT
  when the parent directory does not resolve or the parent has no mount, and EBUSY when
  a node occupies the name under the parent; in each case the store is the store of the
  call.
\<close>

theorem Mount_fails:
  fixes s :: "'w::len word connector"
  assumes "mountPt \<noteq> ''/''" and "mountPt \<noteq> []"
  shows "(findInode s (fst (filepath_Split mountPt)) = None \<longrightarrow>
            Mount s mountPt nodeFs opts = Inr (ENOENT, s)) \<and>
         (\<forall>parent. findInode s (fst (filepath_Split mountPt)) = Some parent \<and>
            mount (inodes s parent) = None \<longrightarrow>
            Mount s mountPt nodeFs opts = Inr (ENOENT, s)) \<and>
         (\<forall>parent. findInode s (fst (filepath_Split mountPt)) = Some parent \<and>
            mount (inodes s parent) \<noteq> None \<and>
            mapGet (children (inodes s parent)) (snd (filepath_Split mountPt)) \<noteq> None \<longrightarrow>
            Mount s mountPt nodeFs opts = Inr (EBUSY, s))"
  using assms by (auto simp: Mount_def split: prod.splits)

theorem Mount_fails_witness:
  "Mount exStore ''/q/m'' 12 None = Inr (ENOENT, exStore) \<and>
   Mount noMountStore ''/a/b'' 12 None = Inr (ENOENT, noMountStore) \<and>
   Mount exStore ''/a/b'' 12 None = Inr (EBUSY, exStore)"
  using Mount_fails[OF split_neq(1) split_neq(3), of exStore 12 None]
    Mount_fails[OF split_neq(2) split_neq(4), of noMountStore 12 None]
    Mount_fails[OF split_neq(2) split_neq(4), of exStore 12 None]
  by (simp add: path_q find_q noMount_a)

text \<open>
  C7 as the specification states it has an "already exists" status for an occupied name.
  The status the code returns there is EBUSY, the one \<open>Unmount\<close> returns for a busy mount.
\<close>

theorem Mount_occupied_counterexample:
  "findInode exStore (fst (filepath_Split ''/a/b'')) = Some 2 \<and>
   mapGet (children (inodes exStore 2)) (snd (filepath_Split ''/a/b'')) = Some 3 \<and>
   Mount exStore ''/a/b'' 12 None = Inr (EBUSY, exStore) \<and>
   Mount exStore ''/a/b'' 12 None \<noteq> Inr (EEXIST, exStore)"
  by (simp add: Mount_def path_q find_q) (simp add: ex_defs mapGet_def)

subsection \<open>Unmount\<close>




subsection \<open>Path resolution\<close>

lemma walk_unresolved:
  "walk s node comps = (n, rest) \<Longrightarrow> rest \<noteq> [] \<Longrightarrow>
   hd rest \<noteq> [] \<and> mapGet (children (inodes s n)) (hd rest) = None"
  by (induction s node comps rule: walk.induct) (auto split: if_splits option.splits)

lemma walk_resolve:
  "walk s node comps = (n, rest) \<Longrightarrow>
   \<exists>pre. comps = pre @ rest \<and> resolve s node (filter (\<lambda>c. c \<noteq> []) pre) = Some n"
proof (induction s node comps rule: walk.induct)
  case (1 s node)
  then show ?case by simp
next
  case (2 s node component comps)
  show ?case
  proof (cases "component = []")
    case True
    with 2 obtain pre where "comps = pre @ rest"
      "resolve s node (filter (\<lambda>c. c \<noteq> []) pre) = Some n" by auto
    with True show ?thesis by (intro exI[of _ "component # pre"]) simp
  next
    case False
    show ?thesis
    proof (cases "mapGet (children (inodes s node)) component")
      case None
      with False 2 show ?thesis by (intro exI[of _ "[]"]) auto
    next
      case (Some nxt)
      with False 2 obtain pre where "comps = pre @ rest"
        "resolve s nxt (filter (\<lambda>c. c \<noteq> []) pre) = Some n" by auto
      with False Some show ?thesis by (intro exI[of _ "component # pre"]) simp
    qed
  qed
qed

lemma resolve_append:
  "resolve s n (xs @ ys) = (case resolve s n xs of None \<Rightarrow> None | Some m \<Rightarrow> resolve s m ys)"
  by (induction xs arbitrary: n) (auto split: option.splits)

lemma walk_findInode:
  "walk s node comps = (n, rest) \<Longrightarrow>
   resolve s node (filter (\<lambda>c. c \<noteq> []) comps) = (if rest = [] then Some n else None)"
proof -
  assume w: "walk s node comps = (n, rest)"
  from walk_resolve[OF w] obtain pre where pre: "comps = pre @ rest"
    and r: "resolve s node (filter (\<lambda>c. c \<noteq> []) pre) = Some n" by blast
  show ?thesis
  proof (cases rest)
    case Nil
    with pre r show ?thesis by simp
  next
    case (Cons c cs)
    with walk_unresolved[OF w] have "c \<noteq> []" "mapGet (children (inodes s n)) c = None" by auto
    with pre r Cons show ?thesis by (simp add: resolve_append)
  qed
qed

lemma abc: "pathComps ''/a/b/c'' = [''a'', ''b'', ''c'']"
  by (simp add: path_defs)

lemma find_ex:
  "findLastKnownInode exStore ''/a/q/c'' = (2, [''q'', ''c''])"
  "findLastKnownInode exStore ''/a/b/c'' = (5, [])"
  "nodeId (inodes exStore 2) = 3"
  "nodeId (inodes exStore 5) = 6"
  "rootNode exStore = 0"
  by (simp_all add: path_defs ex_defs mapGet_def)

text \<open>
  C8, as the code has it. The components of a path are those of the path after
  \<open>filepath.Clean\<close>. \<open>findLastKnownInode\<close> returns a node and a suffix of these components:
  the components before the suffix resolve from the root to that node, through exact
  entries of the child maps, and the first component of a suffix that is not empty has no
  entry under the node. \<open>findInode\<close> returns the node when the suffix is empty and nothing
  otherwise, which is the resolution of all components from the root; so
  \<open>findInode "/a/b/c"\<close> succeeds exactly when \<open>a\<close>, \<open>a/b\<close> and \<open>a/b/c\<close> exist.
\<close>

theorem findLastKnownInode_deepest:
  "(\<forall>n rest. findLastKnownInode s p = (n, rest) \<longrightarrow>
      (\<exists>pre. pathComps p = pre @ rest \<and>
         resolve s (rootNode s) (filter (\<lambda>c. c \<noteq> []) pre) = Some n) \<and>
      (rest \<noteq> [] \<longrightarrow> hd rest \<noteq> [] \<and> mapGet (children (inodes s n)) (hd rest) = None) \<and>
      findInode s p = (if rest = [] then Some n else None)) \<and>
   findInode s p = resolve s (rootNode s) (filter (\<lambda>c. c \<noteq> []) (pathComps p)) \<and>
   (findInode s ''/a/b/c'' = Some m \<longleftrightarrow>
      (\<exists>na nb. mapGet (children (inodes s (rootNode s))) ''a'' = Some na \<and>
         mapGet (children (inodes s na)) ''b'' = Some nb \<and>
         mapGet (children (inodes s nb)) ''c'' = Some m))"
proof -
  have fi: "findInode s q = resolve s (rootNode s) (filter (\<lambda>c. c \<noteq> []) (pathComps q))" for q
  proof -
    obtain n' rest' where f: "findLastKnownInode s q = (n', rest')"
      by (cases "findLastKnownInode s q")
    then have "walk s (rootNode s) (pathComps q) = (n', rest')"
      by (auto simp: findLastKnownInode_def pathComps_def split: if_splits)
    from walk_findInode[OF this] f show ?thesis by (simp add: findInode_def)
  qed
  have abc3: "findInode s ''/a/b/c'' = Some m \<longleftrightarrow>
            (\<exists>na nb. mapGet (children (inodes s (rootNode s))) ''a'' = Some na \<and>
               mapGet (children (inodes s na)) ''b'' = Some nb \<and>
               mapGet (children (inodes s nb)) ''c'' = Some m)"
    by (simp only: fi abc) (auto split: option.splits)
  have walkp: "(\<exists>pre. pathComps p = pre @ rest \<and>
         resolve s (rootNode s) (filter (\<lambda>c. c \<noteq> []) pre) = Some n) \<and>
      (rest \<noteq> [] \<longrightarrow> hd rest \<noteq> [] \<and> mapGet (children (inodes s n)) (hd rest) = None) \<and>
      findInode s p = (if rest = [] then Some n else None)"
    if f: "findLastKnownInode s p = (n, rest)" for n rest
  proof -
    have w: "walk s (rootNode s) (pathComps p) = (n, rest)"
      using f by (auto simp: findLastKnownInode_def pathComps_def split: if_splits)
    have "findInode s p = (if rest = [] then Some n else None)"
      using f by (simp add: findInode_def)
    with walk_resolve[OF w] walk_unresolved[OF w] show ?thesis by blast
  qed
  from walkp fi[of p] abc3 show ?thesis by blast
qed

theorem findLastKnownInode_deepest_witness:
  "findLastKnownInode exStore ''/a/q/c'' = (2, [''q'', ''c'']) \<and>
   mapGet (children (inodes exStore 2)) ''q'' = None \<and>
   findInode exStore ''/a/q/c'' = None \<and>
   resolve exStore 0 (filter (\<lambda>c. c \<noteq> []) (pathComps ''/a/q/c'')) = None \<and>
   findLastKnownInode exStore ''/a/b/c'' = (5, []) \<and>
   findInode exStore ''/a/b/c'' = Some 5 \<and>
   resolve exStore 0 (filter (\<lambda>c. c \<noteq> []) (pathComps ''/a/b/c'')) = Some 5"
proof -
  note t1 = findLastKnownInode_deepest[of exStore "''/a/q/c''" 5]
  note t2 = findLastKnownInode_deepest[of exStore "''/a/b/c''" 5]
  note u1 = t1[THEN conjunct1, THEN spec, THEN spec, THEN mp, OF find_ex(1), THEN conjunct2]
  note u2 = t2[THEN conjunct1, THEN spec, THEN spec, THEN mp, OF find_ex(2), THEN conjunct2]
  from u1 have a: "mapGet (children (inodes exStore 2)) ''q'' = None"
    and b: "findInode exStore ''/a/q/c'' = None" by simp_all
  from t1[THEN conjunct2, THEN conjunct1] b
  have c: "resolve exStore 0 (filter (\<lambda>c. c \<noteq> []) (pathComps ''/a/q/c'')) = None"
    by (simp add: find_ex)
  from u2 have d: "findInode exStore ''/a/b/c'' = Some 5" by simp
  from t2[THEN conjunct2, THEN conjunct1] d
  have e: "resolve exStore 0 (filter (\<lambda>c. c \<noteq> []) (pathComps ''/a/b/c'')) = Some 5"
    by (simp add: find_ex)
  from a b c d e find_ex(1,2) show ?thesis by simp
qed

text \<open>
  C8 as the specification states it resolves the components of the path as written. In
  \<open>/a/../a\<close> the component \<open>..\<close> is no entry of any child map, so these components do not
  resolve; the code cleans the path to \<open>/a\<close> first and finds the directory \<open>a\<close>.
\<close>

theorem findInode_dotdot_counterexample:
  "rawComps ''/a/../a'' = [''a'', ''..'', ''a''] \<and>
   resolve exStore (rootNode exStore) (rawComps ''/a/../a'') = None \<and>
   findLastKnownInode exStore ''/a/../a'' = (2, []) \<and>
   findInode exStore ''/a/../a'' = Some 2"
  by (simp add: rawComps_def path_defs ex_defs mapGet_def)

subsection \<open>Notifications\<close>




subsection \<open>Mount pinning\<close>













end
